theory Spec2Isabelle
  imports Main "HOL-Library.Sublist"
begin

section \<open>The WebSocket relay of src/index.ts (handleWebSocket)\<close>

text \<open>
  One session of \<^verbatim>\<open>handleWebSocket\<close> is a set of closure variables
  (\<^verbatim>\<open>bufferedData\<close>, \<^verbatim>\<open>bufferTimeout\<close>, \<^verbatim>\<open>isUpstreamConnected\<close>,
  \<^verbatim>\<open>keepaliveTimer\<close>) and nine callbacks registered on two sockets and two timers.
  JavaScript runs each callback to completion, so a session is a state machine whose
  steps are the callbacks. The runtime objects the callbacks talk to are part of the
  state: the table of pending \<^verbatim>\<open>setTimeout\<close> and \<^verbatim>\<open>setInterval\<close> handles, and for
  each socket the log of what \<^verbatim>\<open>send\<close> and \<^verbatim>\<open>close\<close> accepted.
\<close>

subsection \<open>Data\<close>

text \<open>A WebSocket frame as the handlers see it: \<^verbatim>\<open>string | ArrayBuffer\<close>.\<close>

datatype frame = Text string | Binary "nat list"

text \<open>\<^verbatim>\<open>WebSocket.readyState\<close>.\<close>

datatype ready_state = CONNECTING | OPEN | CLOSING | CLOSED

text \<open>
  What the relay hands to \<^verbatim>\<open>upstream.send\<close>: a client frame (lines 164 and 180) or the
  keepalive message (line 113). The tag records which call site sent it; \<open>wire\<close> is
  the payload that goes out.
\<close>

datatype sent = Relayed frame | Keepalive

definition KEEPALIVE_MESSAGE :: string where
  "KEEPALIVE_MESSAGE = ''{\"jsonrpc\":\"2.0\",\"method\":\"helius_keepalive\"}''"

fun wire :: "sent \<Rightarrow> frame" where
  "wire (Relayed f) = f"
| "wire Keepalive = Text KEEPALIVE_MESSAGE"

text \<open>The arguments of a \<^verbatim>\<open>close\<close> call: \<open>None\<close> for \<^verbatim>\<open>close()\<close>, else code and reason.\<close>

type_synonym close_args = "(nat \<times> string) option"

definition BUFFER_TIMEOUT_MS :: nat where "BUFFER_TIMEOUT_MS = 10000"
definition KEEPALIVE_INTERVAL_MS :: nat where "KEEPALIVE_INTERVAL_MS = 20000"
definition MAX_BUFFER_SIZE :: nat where "MAX_BUFFER_SIZE = 10"

text \<open>
  The session. The first four fields are the closure variables of lines 102-107; a timer
  variable holds \<open>Some h\<close> for a handle and \<open>None\<close> for \<^verbatim>\<open>null\<close> (handles are positive,
  so the tests \<^verbatim>\<open>if (keepaliveTimer)\<close> and \<^verbatim>\<open>if (bufferTimeout)\<close> ask for \<open>Some\<close>).
  \<open>timeouts\<close> and \<open>intervals\<close> are the runtime's pending timers, \<open>nextHandle\<close> the handle
  it gives out next. The four logs record the calls the sockets accepted, oldest first.
  \<open>cleanupRan\<close> is a history variable: \<open>cleanup\<close> sets it and nothing reads it (the
  source has no such flag).
\<close>

record session =
  bufferedData :: "frame list"
  bufferTimeout :: "nat option"
  isUpstreamConnected :: bool
  keepaliveTimer :: "nat option"
  timeouts :: "nat set"
  intervals :: "nat set"
  nextHandle :: nat
  upstreamSent :: "sent list"
  upstreamCloses :: "close_args list"
  serverSent :: "frame list"
  serverCloses :: "close_args list"
  cleanupRan :: bool

definition init :: session where
  "init = \<lparr> bufferedData = [], bufferTimeout = None, isUpstreamConnected = False,
            keepaliveTimer = None, timeouts = {}, intervals = {}, nextHandle = 1,
            upstreamSent = [], upstreamCloses = [], serverSent = [], serverCloses = [],
            cleanupRan = False \<rparr>"

text \<open>
  What the environment decides while one callback runs: the \<^verbatim>\<open>readyState\<close> each socket
  shows, whether the \<open>k\<close>-th \<^verbatim>\<open>send\<close> of this callback throws, and whether its
  \<^verbatim>\<open>close\<close> throws.
\<close>

record env =
  upstreamReadyState :: ready_state
  serverReadyState :: ready_state
  sendThrows :: "nat \<Rightarrow> bool"
  closeThrows :: bool

subsection \<open>Exceptions\<close>

text \<open>
  A block of statements either completes (\<open>Inr\<close>, the state after it) or throws
  (\<open>Inl\<close>, the exception and the state at the throw).
\<close>

datatype exn = SendError | CloseError

type_synonym outcome = "(exn \<times> session) + session"

definition upstream_send :: "bool \<Rightarrow> sent \<Rightarrow> session \<Rightarrow> outcome" where
  "upstream_send throws x s =
     (if throws then Inl (SendError, s) else Inr (s\<lparr>upstreamSent := upstreamSent s @ [x]\<rparr>))"

definition server_send :: "bool \<Rightarrow> frame \<Rightarrow> session \<Rightarrow> outcome" where
  "server_send throws x s =
     (if throws then Inl (SendError, s) else Inr (s\<lparr>serverSent := serverSent s @ [x]\<rparr>))"

definition upstream_close :: "bool \<Rightarrow> close_args \<Rightarrow> session \<Rightarrow> outcome" where
  "upstream_close throws a s =
     (if throws then Inl (CloseError, s) else Inr (s\<lparr>upstreamCloses := upstreamCloses s @ [a]\<rparr>))"

definition server_close :: "bool \<Rightarrow> close_args \<Rightarrow> session \<Rightarrow> outcome" where
  "server_close throws a s =
     (if throws then Inl (CloseError, s) else Inr (s\<lparr>serverCloses := serverCloses s @ [a]\<rparr>))"

text \<open>\<^verbatim>\<open>try { body } catch { handler }\<close>; \<open>ignore\<close> is the empty handler.\<close>

definition try_catch :: "outcome \<Rightarrow> (session \<Rightarrow> outcome) \<Rightarrow> outcome" where
  "try_catch body handler = (case body of Inr s \<Rightarrow> Inr s | Inl (e, s) \<Rightarrow> handler s)"

definition ignore :: "session \<Rightarrow> outcome" where
  "ignore s = Inr s"

text \<open>The state a callback leaves behind, whether it returned or threw.\<close>

fun final :: "outcome \<Rightarrow> session" where
  "final (Inr s) = s"
| "final (Inl (e, s)) = s"

subsection \<open>Timers (lines 109-147)\<close>

definition clearKeepalive :: "session \<Rightarrow> session" where
  "clearKeepalive s =
     (case keepaliveTimer s of
        Some h \<Rightarrow> s\<lparr>intervals := intervals s - {h}, keepaliveTimer := None\<rparr>
      | None \<Rightarrow> s)"

definition startKeepalive :: "session \<Rightarrow> session" where
  "startKeepalive s =
     s\<lparr>keepaliveTimer := Some (nextHandle s),
        intervals := insert (nextHandle s) (intervals s),
        nextHandle := Suc (nextHandle s)\<rparr>"

text \<open>The callback of the interval (lines 110-120).\<close>

definition keepalive_callback :: "env \<Rightarrow> session \<Rightarrow> outcome" where
  "keepalive_callback ev s =
     (if upstreamReadyState ev = OPEN
      then try_catch (upstream_send (sendThrows ev 0) Keepalive s) (\<lambda>s'. Inr (clearKeepalive s'))
      else Inr (clearKeepalive s))"

definition clearBufferTimeout :: "session \<Rightarrow> session" where
  "clearBufferTimeout s =
     (case bufferTimeout s of
        Some h \<Rightarrow> s\<lparr>timeouts := timeouts s - {h}, bufferTimeout := None\<rparr>
      | None \<Rightarrow> s)"

definition startBufferTimeout :: "session \<Rightarrow> session" where
  "startBufferTimeout s =
     (let s1 = clearBufferTimeout s
      in s1\<lparr>bufferTimeout := Some (nextHandle s1),
            timeouts := insert (nextHandle s1) (timeouts s1),
            nextHandle := Suc (nextHandle s1)\<rparr>)"

text \<open>The callback of the timeout (lines 139-146).\<close>

definition buffer_timeout_callback :: "env \<Rightarrow> session \<Rightarrow> outcome" where
  "buffer_timeout_callback ev s =
     (if length (bufferedData s) > 0 \<and> \<not> isUpstreamConnected s
      then try_catch
             (server_close (closeThrows ev) (Some (1011, ''upstream_connection_timeout''))
                (s\<lparr>bufferedData := []\<rparr>))
             ignore
      else Inr s)"

definition cleanup :: "session \<Rightarrow> session" where
  "cleanup s = (clearBufferTimeout (clearKeepalive s))\<lparr>bufferedData := [], cleanupRan := True\<rparr>"

subsection \<open>Socket handlers (lines 156-234)\<close>

text \<open>
  The loop of lines 163-165: \<open>i\<close> counts the \<^verbatim>\<open>send\<close> calls of this callback. A throw
  leaves the loop with the frames before it already sent.
\<close>

fun flush :: "(nat \<Rightarrow> bool) \<Rightarrow> nat \<Rightarrow> frame list \<Rightarrow> session \<Rightarrow> outcome" where
  "flush thr i [] s = Inr s"
| "flush thr i (d # ds) s =
     (case upstream_send (thr i) (Relayed d) s of
        Inl x \<Rightarrow> Inl x
      | Inr s' \<Rightarrow> flush thr (Suc i) ds s')"

definition on_upstream_open :: "env \<Rightarrow> session \<Rightarrow> outcome" where
  "on_upstream_open ev s0 =
     (let s1 = clearBufferTimeout (s0\<lparr>isUpstreamConnected := True\<rparr>)
      in if length (bufferedData s1) > 0
         then (case flush (sendThrows ev) 0 (bufferedData s1) s1 of
                 Inr s2 \<Rightarrow> Inr (startKeepalive (s2\<lparr>bufferedData := []\<rparr>))
               | Inl (e, s2) \<Rightarrow>
                   try_catch
                     (server_close (closeThrows ev) (Some (1011, ''upstream_ws_error'')) (cleanup s2))
                     ignore)
         else Inr (startKeepalive s1))"

definition on_server_message :: "env \<Rightarrow> frame \<Rightarrow> session \<Rightarrow> outcome" where
  "on_server_message ev d s =
     (if isUpstreamConnected s \<and> upstreamReadyState ev = OPEN
      then try_catch (upstream_send (sendThrows ev 0) (Relayed d) s)
             (\<lambda>s'. try_catch
                      (server_close (closeThrows ev) (Some (1011, ''upstream_ws_error'')) (cleanup s'))
                      ignore)
      else if length (bufferedData s) \<ge> MAX_BUFFER_SIZE
      then try_catch
             (server_close (closeThrows ev) (Some (1011, ''buffer_overflow'')) (cleanup s))
             ignore
      else (let s1 = (if length (bufferedData s) = 0 then startBufferTimeout s else s)
            in Inr (s1\<lparr>bufferedData := bufferedData s1 @ [d]\<rparr>)))"

definition on_upstream_message :: "env \<Rightarrow> frame \<Rightarrow> session \<Rightarrow> outcome" where
  "on_upstream_message ev d s =
     (if serverReadyState ev = OPEN
      then try_catch (server_send (sendThrows ev 0) d s)
             (\<lambda>s'. try_catch
                      (upstream_close (closeThrows ev) (Some (1011, ''client_ws_error'')) (cleanup s'))
                      ignore)
      else Inr s)"

definition on_server_close :: "env \<Rightarrow> session \<Rightarrow> outcome" where
  "on_server_close ev s = try_catch (upstream_close (closeThrows ev) None (cleanup s)) ignore"

definition on_upstream_close :: "env \<Rightarrow> session \<Rightarrow> outcome" where
  "on_upstream_close ev s =
     try_catch (server_close (closeThrows ev) None (cleanup (s\<lparr>isUpstreamConnected := False\<rparr>))) ignore"

definition on_server_error :: "env \<Rightarrow> session \<Rightarrow> outcome" where
  "on_server_error ev s =
     try_catch (upstream_close (closeThrows ev) (Some (1011, ''client_ws_error'')) (cleanup s)) ignore"

definition on_upstream_error :: "env \<Rightarrow> session \<Rightarrow> outcome" where
  "on_upstream_error ev s =
     try_catch
       (server_close (closeThrows ev) (Some (1011, ''upstream_ws_error''))
          (cleanup (s\<lparr>isUpstreamConnected := False\<rparr>)))
       ignore"

subsection \<open>The event loop\<close>

text \<open>
  The events of a session. A timer event names the handle that fires; the runtime runs
  the callback only if that handle is pending, and a timeout is pending no longer once
  it has fired. When a timer fires is the environment's choice: the two durations are
  constants of the source that no handler computes with.
\<close>

datatype event =
    UpstreamOpen
  | ServerMessage frame
  | UpstreamMessage frame
  | ServerClose
  | UpstreamClose
  | ServerError
  | UpstreamError
  | BufferTimeoutFires nat
  | KeepaliveTick nat

fun dispatch :: "env \<Rightarrow> event \<Rightarrow> session \<Rightarrow> outcome" where
  "dispatch ev UpstreamOpen s = on_upstream_open ev s"
| "dispatch ev (ServerMessage d) s = on_server_message ev d s"
| "dispatch ev (UpstreamMessage d) s = on_upstream_message ev d s"
| "dispatch ev ServerClose s = on_server_close ev s"
| "dispatch ev UpstreamClose s = on_upstream_close ev s"
| "dispatch ev ServerError s = on_server_error ev s"
| "dispatch ev UpstreamError s = on_upstream_error ev s"
| "dispatch ev (BufferTimeoutFires h) s =
     (if h \<in> timeouts s then buffer_timeout_callback ev (s\<lparr>timeouts := timeouts s - {h}\<rparr>)
      else Inr s)"
| "dispatch ev (KeepaliveTick h) s =
     (if h \<in> intervals s then keepalive_callback ev s else Inr s)"

definition step :: "session \<Rightarrow> env \<times> event \<Rightarrow> session" where
  "step s x = final (dispatch (fst x) (snd x) s)"

fun run :: "session \<Rightarrow> (env \<times> event) list \<Rightarrow> session" where
  "run s [] = s"
| "run s (x # xs) = run (step s x) xs"

text \<open>Observations of a trace and of the upstream log.\<close>

fun client_frames :: "(env \<times> event) list \<Rightarrow> frame list" where
  "client_frames [] = []"
| "client_frames ((ev, ServerMessage d) # xs) = d # client_frames xs"
| "client_frames (x # xs) = client_frames xs"

fun opens :: "(env \<times> event) list \<Rightarrow> nat" where
  "opens [] = 0"
| "opens ((ev, UpstreamOpen) # xs) = Suc (opens xs)"
| "opens (x # xs) = opens xs"

fun relayed :: "sent list \<Rightarrow> frame list" where
  "relayed [] = []"
| "relayed (Relayed d # xs) = d # relayed xs"
| "relayed (Keepalive # xs) = relayed xs"

fun frame_of :: "event \<Rightarrow> frame list" where
  "frame_of (ServerMessage d) = [d]"
| "frame_of e = []"

text \<open>
  Environments and traces used as concrete inputs. In \<open>calm\<close> both sockets are open and
  no call throws; in \<open>connecting\<close> the upstream handshake is still running; in
  \<open>closing\<close> the upstream has left the open state. \<open>overflow_trace\<close> is eleven client
  frames arriving before the upstream has opened.
\<close>

definition calm :: env where
  "calm = \<lparr> upstreamReadyState = OPEN, serverReadyState = OPEN,
            sendThrows = (\<lambda>k. False), closeThrows = False \<rparr>"

definition connecting :: env where
  "connecting = \<lparr> upstreamReadyState = CONNECTING, serverReadyState = OPEN,
                  sendThrows = (\<lambda>k. False), closeThrows = False \<rparr>"

definition closing :: env where
  "closing = \<lparr> upstreamReadyState = CLOSING, serverReadyState = OPEN,
               sendThrows = (\<lambda>k. False), closeThrows = False \<rparr>"

definition overflow_trace :: "(env \<times> event) list" where
  "overflow_trace = map (\<lambda>n. (connecting, ServerMessage (Binary [n]))) [0..<11]"

text \<open>
  The WebSocket close codes of RFC 6455 that the close calls are compared with:
  1008 is "policy violation", 1011 is "internal error" (a server error).
\<close>

definition POLICY_VIOLATION :: nat where "POLICY_VIOLATION = 1008"
definition INTERNAL_ERROR :: nat where "INTERNAL_ERROR = 1011"

subsection \<open>Invariants of the event loop\<close>

text \<open>
  \<open>timeout_inv\<close>: the only timeout that can be pending is the one \<^verbatim>\<open>bufferTimeout\<close> holds;
  a pending timeout means a non-empty queue; a non-empty queue with the flag down means a
  pending timeout.
\<close>

definition timeout_inv :: "session \<Rightarrow> bool" where
  "timeout_inv s =
     ((timeouts s = {} \<or> timeouts s = set_option (bufferTimeout s))
      \<and> (timeouts s = {} \<or> bufferedData s \<noteq> [])
      \<and> (bufferedData s = [] \<or> isUpstreamConnected s \<or> timeouts s \<noteq> {}))"

text \<open>
  \<open>pre_open s fs\<close> holds before the upstream \<^verbatim>\<open>open\<close> event, \<open>post_open s fs\<close> after it,
  where \<open>fs\<close> are the client frames received so far.
\<close>

definition pre_open :: "session \<Rightarrow> frame list \<Rightarrow> bool" where
  "pre_open s fs =
     (\<not> isUpstreamConnected s \<and> intervals s = {} \<and> upstreamSent s = [] \<and>
      subseq (bufferedData s) fs)"

definition post_open :: "session \<Rightarrow> frame list \<Rightarrow> bool" where
  "post_open s fs =
     ((intervals s = {} \<or> intervals s = set_option (keepaliveTimer s)) \<and>
      (intervals s = {} \<or> isUpstreamConnected s) \<and>
      subseq (relayed (upstreamSent s)) fs)"

section \<open>The CORS headers (getCorsHeaders, lines 280-293)\<close>

text \<open>
  A JavaScript string is a sequence of UTF-16 code units, here a list of numbers; \<open>js\<close>
  turns an ASCII literal of the source into its code units.
\<close>

type_synonym jsstring = "nat list"




text \<open>\<^verbatim>\<open>s.split(',')\<close> (the comma is code unit 0x2C): the empty string splits into one empty entry.\<close>

fun split_comma :: "jsstring \<Rightarrow> jsstring list" where
  "split_comma [] = [[]]"
| "split_comma (c # cs) =
     (if c = 0x2C then [] # split_comma cs
      else (case split_comma cs of
              w # ws \<Rightarrow> (c # w) # ws
            | [] \<Rightarrow> [[c]]))"

text \<open>
  \<^verbatim>\<open>ws.join(',')\<close>: how a list of entries is written as a configuration string. It is
  not code of the source; the claim about the allow-list is stated with it, and
  \<open>split_comma\<close> is shown to be its inverse.
\<close>

fun join_comma :: "jsstring list \<Rightarrow> jsstring" where
  "join_comma [] = []"
| "join_comma [w] = w"
| "join_comma (w # ws) = w @ 0x2C # join_comma ws"


section \<open>Lemmas\<close>

lemmas handler_defs = on_upstream_open_def on_server_message_def on_upstream_message_def
  on_server_close_def on_upstream_close_def on_server_error_def on_upstream_error_def
  buffer_timeout_callback_def keepalive_callback_def
lemmas prim_defs = upstream_send_def server_send_def upstream_close_def server_close_def
  try_catch_def ignore_def
lemmas timer_defs = clearKeepalive_def startKeepalive_def clearBufferTimeout_def
  startBufferTimeout_def cleanup_def
lemmas env_defs = init_def calm_def connecting_def closing_def MAX_BUFFER_SIZE_def


lemma flush_cases:
  "\<exists>k. k \<le> length q \<and>
     (flush thr n q s = Inr (s\<lparr>upstreamSent := upstreamSent s @ map Relayed q\<rparr>) \<or>
      flush thr n q s = Inl (SendError, s\<lparr>upstreamSent := upstreamSent s @ map Relayed (take k q)\<rparr>))"
proof (induction q arbitrary: n s)
  case Nil
  then show ?case by simp
next
  case (Cons d ds)
  show ?case
  proof (cases "thr n")
    case True
    then have "flush thr n (d # ds) s =
       Inl (SendError, s\<lparr>upstreamSent := upstreamSent s @ map Relayed (take 0 (d # ds))\<rparr>)"
      by (simp add: upstream_send_def)
    then show ?thesis by blast
  next
    case False
    let ?s = "s\<lparr>upstreamSent := upstreamSent s @ [Relayed d]\<rparr>"
    from Cons.IH [of "Suc n" ?s] obtain k where k: "k \<le> length ds"
      and c: "flush thr (Suc n) ds ?s = Inr (?s\<lparr>upstreamSent := upstreamSent ?s @ map Relayed ds\<rparr>) \<or>
          flush thr (Suc n) ds ?s = Inl (SendError, ?s\<lparr>upstreamSent := upstreamSent ?s @ map Relayed (take k ds)\<rparr>)"
      by blast
    from c show ?thesis
    proof
      assume "flush thr (Suc n) ds ?s = Inr (?s\<lparr>upstreamSent := upstreamSent ?s @ map Relayed ds\<rparr>)"
      then have "flush thr n (d # ds) s = Inr (s\<lparr>upstreamSent := upstreamSent s @ map Relayed (d # ds)\<rparr>)"
        using False by (simp add: upstream_send_def)
      then show ?thesis by (intro exI [of _ 0]) simp
    next
      assume "flush thr (Suc n) ds ?s = Inl (SendError, ?s\<lparr>upstreamSent := upstreamSent ?s @ map Relayed (take k ds)\<rparr>)"
      then have "flush thr n (d # ds) s =
         Inl (SendError, s\<lparr>upstreamSent := upstreamSent s @ map Relayed (take (Suc k) (d # ds))\<rparr>)"
        using False by (simp add: upstream_send_def)
      then show ?thesis using k by (intro exI [of _ "Suc k"]) simp
    qed
  qed
qed

lemma open_cases:
  "\<exists>k. k \<le> length (bufferedData s) \<and>
     (final (on_upstream_open ev s) =
        startKeepalive ((clearBufferTimeout s)
               \<lparr>isUpstreamConnected := True,
                upstreamSent := upstreamSent s @ map Relayed (bufferedData s),
                bufferedData := []\<rparr>) \<or>
      final (on_upstream_open ev s) =
        (cleanup (s\<lparr>isUpstreamConnected := True,
                         upstreamSent := upstreamSent s @ map Relayed (take k (bufferedData s))\<rparr>))
               \<lparr>serverCloses := serverCloses s @
                  (if closeThrows ev then [] else [Some (1011, ''upstream_ws_error'')])\<rparr>)"
proof -
  define s1 where "s1 = clearBufferTimeout (s\<lparr>isUpstreamConnected := True\<rparr>)"
  have q: "bufferedData s1 = bufferedData s"
    by (simp add: s1_def clearBufferTimeout_def split: option.splits)
  from flush_cases [of "bufferedData s1" "sendThrows ev" 0 s1] obtain k
    where k: "k \<le> length (bufferedData s1)"
      and c: "flush (sendThrows ev) 0 (bufferedData s1) s1 = Inr (s1\<lparr>upstreamSent := upstreamSent s1 @ map Relayed (bufferedData s1)\<rparr>) \<or>
      flush (sendThrows ev) 0 (bufferedData s1) s1 = Inl (SendError, s1\<lparr>upstreamSent := upstreamSent s1 @ map Relayed (take k (bufferedData s1))\<rparr>)"
    by blast
  show ?thesis
  proof (cases "bufferedData s1 = []")
    case True
    then have "final (on_upstream_open ev s) =
        startKeepalive ((clearBufferTimeout s)
               \<lparr>isUpstreamConnected := True,
                upstreamSent := upstreamSent s @ map Relayed (bufferedData s),
                bufferedData := []\<rparr>)"
      unfolding on_upstream_open_def Let_def s1_def [symmetric] using q
      by (auto simp: s1_def clearBufferTimeout_def startKeepalive_def split: option.splits)
    then show ?thesis by blast
  next
    case False
    from c show ?thesis
    proof
      assume "flush (sendThrows ev) 0 (bufferedData s1) s1 = Inr (s1\<lparr>upstreamSent := upstreamSent s1 @ map Relayed (bufferedData s1)\<rparr>)"
      then have "final (on_upstream_open ev s) =
        startKeepalive ((clearBufferTimeout s)
               \<lparr>isUpstreamConnected := True,
                upstreamSent := upstreamSent s @ map Relayed (bufferedData s),
                bufferedData := []\<rparr>)"
        unfolding on_upstream_open_def Let_def s1_def [symmetric] using q False
        by (auto simp: s1_def clearBufferTimeout_def startKeepalive_def split: option.splits)
      then show ?thesis by blast
    next
      assume "flush (sendThrows ev) 0 (bufferedData s1) s1 = Inl (SendError, s1\<lparr>upstreamSent := upstreamSent s1 @ map Relayed (take k (bufferedData s1))\<rparr>)"
      then have "final (on_upstream_open ev s) =
        (cleanup (s\<lparr>isUpstreamConnected := True,
                         upstreamSent := upstreamSent s @ map Relayed (take k (bufferedData s))\<rparr>))
               \<lparr>serverCloses := serverCloses s @
                  (if closeThrows ev then [] else [Some (1011, ''upstream_ws_error'')])\<rparr>"
        unfolding on_upstream_open_def Let_def s1_def [symmetric] using q False
        by (auto simp: s1_def clearBufferTimeout_def cleanup_def clearKeepalive_def try_catch_def
          server_close_def ignore_def split: option.splits)
      then show ?thesis using k q by auto
    qed
  qed
qed

lemma timeout_inv_init: "timeout_inv init"
  by (simp add: timeout_inv_def init_def)

lemma timeout_inv_open: "timeout_inv s \<Longrightarrow> timeout_inv (final (on_upstream_open ev s))"
  using open_cases [of s ev]
  by (auto simp: timeout_inv_def timer_defs split: option.splits)

lemma timeout_inv_step: "timeout_inv s \<Longrightarrow> timeout_inv (step s x)"
proof (cases x)
  case (Pair ev e)
  assume inv: "timeout_inv s"
  show ?thesis
  proof (cases e)
    case UpstreamOpen
    then show ?thesis using timeout_inv_open [OF inv] Pair by (simp add: step_def)
  qed (use inv Pair in \<open>auto simp: step_def timeout_inv_def handler_defs prim_defs timer_defs Let_def split: option.splits if_splits\<close>)
qed

lemma timeout_inv_run: "timeout_inv s \<Longrightarrow> timeout_inv (run s tr)"
  by (induction tr arbitrary: s) (auto simp: timeout_inv_step)


lemma client_frames_Cons: "client_frames ((ev, e) # xs) = frame_of e @ client_frames xs"
  by (cases e) auto

lemma relayed_append: "relayed (xs @ ys) = relayed xs @ relayed ys"
  by (induction xs rule: relayed.induct) auto

lemma relayed_map: "relayed (map Relayed q) = q"
  by (induction q) auto

lemma subseq_snoc: "subseq xs ys \<Longrightarrow> subseq xs (ys @ zs)"
  by (rule subseq_rev_drop_many)

lemma pre_open_step:
  assumes "pre_open s fs" and "e \<noteq> UpstreamOpen"
  shows "pre_open (step s (ev, e)) (fs @ frame_of e)"
  using assms
  by (cases e)
     (auto simp: step_def pre_open_def handler_defs prim_defs timer_defs Let_def
           split: option.splits if_splits)

lemma post_open_step:
  assumes "post_open s fs" and "e \<noteq> UpstreamOpen"
  shows "post_open (step s (ev, e)) (fs @ frame_of e)"
  using assms
  by (cases e)
     (auto simp: step_def post_open_def handler_defs prim_defs timer_defs Let_def relayed_append
           split: option.splits if_splits)

lemma open_step:
  assumes "pre_open s fs"
  shows "post_open (step s (ev, UpstreamOpen)) fs"
proof -
  from open_cases [of s ev] obtain k where
    c: "final (on_upstream_open ev s) =
        startKeepalive ((clearBufferTimeout s)
               \<lparr>isUpstreamConnected := True,
                upstreamSent := upstreamSent s @ map Relayed (bufferedData s),
                bufferedData := []\<rparr>) \<or>
      final (on_upstream_open ev s) =
        (cleanup (s\<lparr>isUpstreamConnected := True,
                         upstreamSent := upstreamSent s @ map Relayed (take k (bufferedData s))\<rparr>))
               \<lparr>serverCloses := serverCloses s @
                  (if closeThrows ev then [] else [Some (1011, ''upstream_ws_error'')])\<rparr>"
    by blast
  have sub: "subseq (take k (bufferedData s)) fs"
  proof -
    have "prefix (take k (bufferedData s)) (bufferedData s)" by (rule take_is_prefix)
    then have "subseq (take k (bufferedData s)) (bufferedData s)" by (rule prefix_imp_subseq)
    then show ?thesis using assms unfolding pre_open_def by (blast intro: subseq_order.order_trans)
  qed
  from c show ?thesis
  proof
    assume "final (on_upstream_open ev s) =
        startKeepalive ((clearBufferTimeout s)
               \<lparr>isUpstreamConnected := True,
                upstreamSent := upstreamSent s @ map Relayed (bufferedData s),
                bufferedData := []\<rparr>)"
    then show ?thesis using assms
      by (auto simp: step_def pre_open_def post_open_def timer_defs relayed_map split: option.splits)
  next
    assume "final (on_upstream_open ev s) =
        (cleanup (s\<lparr>isUpstreamConnected := True,
                         upstreamSent := upstreamSent s @ map Relayed (take k (bufferedData s))\<rparr>))
               \<lparr>serverCloses := serverCloses s @
                  (if closeThrows ev then [] else [Some (1011, ''upstream_ws_error'')])\<rparr>"
    then show ?thesis using assms sub
      by (auto simp: step_def pre_open_def post_open_def timer_defs relayed_map split: option.splits)
  qed
qed

lemma run_pre_open:
  "opens tr = 0 \<Longrightarrow> pre_open s fs \<Longrightarrow> pre_open (run s tr) (fs @ client_frames tr)"
proof (induction tr arbitrary: s fs)
  case Nil
  then show ?case by simp
next
  case (Cons x xs)
  obtain ev e where x: "x = (ev, e)" by (cases x)
  have ne: "e \<noteq> UpstreamOpen" using Cons.prems(1) x by (cases e) auto
  have o: "opens xs = 0" using Cons.prems(1) x by (cases e) auto
  from Cons.IH [OF o pre_open_step [OF Cons.prems(2) ne, of ev]]
  show ?case using x by (simp add: client_frames_Cons)
qed

lemma run_post_open:
  "opens tr = 0 \<Longrightarrow> post_open s fs \<Longrightarrow> post_open (run s tr) (fs @ client_frames tr)"
proof (induction tr arbitrary: s fs)
  case Nil
  then show ?case by simp
next
  case (Cons x xs)
  obtain ev e where x: "x = (ev, e)" by (cases x)
  have ne: "e \<noteq> UpstreamOpen" using Cons.prems(1) x by (cases e) auto
  have o: "opens xs = 0" using Cons.prems(1) x by (cases e) auto
  from Cons.IH [OF o post_open_step [OF Cons.prems(2) ne, of ev]]
  show ?case using x by (simp add: client_frames_Cons)
qed

lemma run_one_open:
  "opens tr \<le> 1 \<Longrightarrow> pre_open s fs \<Longrightarrow>
   (opens tr = 0 \<and> pre_open (run s tr) (fs @ client_frames tr)) \<or>
   (opens tr = 1 \<and> post_open (run s tr) (fs @ client_frames tr))"
proof (induction tr arbitrary: s fs)
  case Nil
  then show ?case by simp
next
  case (Cons x xs)
  obtain ev e where x: "x = (ev, e)" by (cases x)
  show ?case
  proof (cases "e = UpstreamOpen")
    case True
    have o: "opens xs = 0" using Cons.prems(1) x True by simp
    from run_post_open [OF o open_step [OF Cons.prems(2), of ev]]
    show ?thesis using x True o by (simp add: client_frames_Cons)
  next
    case False
    have o: "opens xs = opens (x # xs)" using x False by (cases e) auto
    then have o1: "opens xs \<le> 1" using Cons.prems(1) by simp
    from Cons.IH [OF o1 pre_open_step [OF Cons.prems(2) False, of ev]]
    show ?thesis using x o by (simp add: client_frames_Cons)
  qed
qed

lemma pre_open_init: "pre_open init []"
  by (simp add: pre_open_def init_def)

lemma flush_ok:
  "\<forall>i<length q. \<not> thr (n + i) \<Longrightarrow>
   flush thr n q s = Inr (s\<lparr>upstreamSent := upstreamSent s @ map Relayed q\<rparr>)"
proof (induction q arbitrary: n s)
  case Nil
  then show ?case by simp
next
  case (Cons d ds)
  have h0: "\<not> thr n" using Cons.prems by force
  have hs: "\<forall>i<length ds. \<not> thr (Suc n + i)"
  proof (intro allI impI)
    fix i assume "i < length ds"
    then have "Suc i < length (d # ds)" by simp
    with Cons.prems have "\<not> thr (n + Suc i)" by blast
    then show "\<not> thr (Suc n + i)" by simp
  qed
  show ?case using h0 Cons.IH [OF hs] by (simp add: upstream_send_def)
qed

lemma flush_fail:
  "k < length q \<Longrightarrow> thr (n + k) \<Longrightarrow> \<forall>i<k. \<not> thr (n + i) \<Longrightarrow>
   flush thr n q s = Inl (SendError, s\<lparr>upstreamSent := upstreamSent s @ map Relayed (take k q)\<rparr>)"
proof (induction q arbitrary: n k s)
  case Nil
  then show ?case by simp
next
  case (Cons d ds)
  show ?case
  proof (cases k)
    case 0
    then show ?thesis using Cons.prems by (simp add: upstream_send_def)
  next
    case (Suc j)
    have h0: "\<not> thr n" using Cons.prems(3) Suc by force
    have a: "j < length ds" using Cons.prems(1) Suc by simp
    have b: "thr (Suc n + j)" using Cons.prems(2) Suc by simp
    have c: "\<forall>i<j. \<not> thr (Suc n + i)"
    proof (intro allI impI)
      fix i assume "i < j"
      then have "Suc i < k" using Suc by simp
      with Cons.prems(3) have "\<not> thr (n + Suc i)" by blast
      then show "\<not> thr (Suc n + i)" by simp
    qed
    show ?thesis using h0 Suc Cons.IH [OF a b c] by (simp add: upstream_send_def)
  qed
qed


lemma open_ok:
  assumes ok: "\<forall>i<length (bufferedData s). \<not> sendThrows ev i"
  shows "on_upstream_open ev s =
        Inr (startKeepalive ((clearBufferTimeout s)
               \<lparr>isUpstreamConnected := True,
                upstreamSent := upstreamSent s @ map Relayed (bufferedData s),
                bufferedData := []\<rparr>))"
proof -
  define s1 where "s1 = clearBufferTimeout (s\<lparr>isUpstreamConnected := True\<rparr>)"
  have q: "bufferedData s1 = bufferedData s"
    by (simp add: s1_def clearBufferTimeout_def split: option.splits)
  have "\<forall>i<length (bufferedData s1). \<not> sendThrows ev (0 + i)" using ok q by simp
  from flush_ok [OF this]
  have fl: "flush (sendThrows ev) 0 (bufferedData s1) s1 =
              Inr (s1\<lparr>upstreamSent := upstreamSent s1 @ map Relayed (bufferedData s1)\<rparr>)" .
  show ?thesis
    unfolding on_upstream_open_def Let_def s1_def [symmetric]
    using fl q
    by (auto simp: s1_def clearBufferTimeout_def startKeepalive_def split: option.splits)
qed

lemma open_fail:
  assumes bad: "k < length (bufferedData s)" "sendThrows ev k" "\<forall>i<k. \<not> sendThrows ev i"
  shows "on_upstream_open ev s =
        Inr ((cleanup (s\<lparr>isUpstreamConnected := True,
                         upstreamSent := upstreamSent s @ map Relayed (take k (bufferedData s))\<rparr>))
               \<lparr>serverCloses := serverCloses s @
                  (if closeThrows ev then [] else [Some (1011, ''upstream_ws_error'')])\<rparr>)"
proof -
  define s1 where "s1 = clearBufferTimeout (s\<lparr>isUpstreamConnected := True\<rparr>)"
  have q: "bufferedData s1 = bufferedData s"
    by (simp add: s1_def clearBufferTimeout_def split: option.splits)
  have a: "k < length (bufferedData s1)" using bad q by simp
  have b: "sendThrows ev (0 + k)" using bad by simp
  have c: "\<forall>i<k. \<not> sendThrows ev (0 + i)" using bad by simp
  from flush_fail [OF a b c]
  have fl: "flush (sendThrows ev) 0 (bufferedData s1) s1 =
              Inl (SendError, s1\<lparr>upstreamSent := upstreamSent s1 @ map Relayed (take k (bufferedData s1))\<rparr>)" .
  have ne: "length (bufferedData s1) > 0" using a by (cases "bufferedData s1") auto
  show ?thesis
    unfolding on_upstream_open_def Let_def s1_def [symmetric]
    using fl q ne
    by (auto simp: s1_def clearBufferTimeout_def cleanup_def clearKeepalive_def try_catch_def
          server_close_def ignore_def split: option.splits)
qed

lemma run_append: "run s (xs @ ys) = run (run s xs) ys"
  by (induction xs arbitrary: s) auto




lemma split_comma_nonempty: "split_comma s \<noteq> []"
  by (induction s) (auto split: list.splits)

lemma split_comma_no_comma: "w \<in> set (split_comma s) \<Longrightarrow> 0x2C \<notin> set w"
  by (induction s arbitrary: w) (auto split: if_splits list.splits)

lemma join_comma_Cons: "join_comma ((c # w) # ws) = c # join_comma (w # ws)"
  by (cases ws) auto

lemma join_comma_Nil: "ws \<noteq> [] \<Longrightarrow> join_comma ([] # ws) = 0x2C # join_comma ws"
  by (cases ws) auto

lemma join_split: "join_comma (split_comma s) = s"
proof (induction s)
  case Nil
  show ?case by simp
next
  case (Cons c cs)
  show ?case
  proof (cases "c = 0x2C")
    case True
    then show ?thesis using Cons.IH by (simp add: join_comma_Nil split_comma_nonempty)
  next
    case False
    obtain w ws where sp: "split_comma cs = w # ws"
      using split_comma_nonempty [of cs] by (cases "split_comma cs") auto
    then show ?thesis using False Cons.IH by (simp add: join_comma_Cons)
  qed
qed







text \<open>Reachable states, and the states of the traces used as concrete inputs.\<close>

lemma timeout_inv_reachable: "timeout_inv (run init tr)"
  by (rule timeout_inv_run [OF timeout_inv_init])

lemma open_queue_empty: "bufferedData (final (on_upstream_open ev s)) = []"
  using open_cases [of s ev]
  by (auto simp: timer_defs split: option.splits)

lemma overflow_state:
  "run init overflow_trace =
     \<lparr> bufferedData = [], bufferTimeout = None, isUpstreamConnected = False,
       keepaliveTimer = None, timeouts = {}, intervals = {}, nextHandle = 2,
       upstreamSent = [], upstreamCloses = [], serverSent = [],
       serverCloses = [Some (1011, ''buffer_overflow'')], cleanupRan = True \<rparr>"
  by (simp add: overflow_trace_def upt_rec env_defs step_def on_server_message_def
        prim_defs timer_defs)

lemma two_buffered:
  "run init [(connecting, ServerMessage (Text ''a'')), (connecting, ServerMessage (Text ''b''))] =
     \<lparr> bufferedData = [Text ''a'', Text ''b''], bufferTimeout = Some 1,
       isUpstreamConnected = False, keepaliveTimer = None, timeouts = {1}, intervals = {},
       nextHandle = 2, upstreamSent = [], upstreamCloses = [], serverSent = [],
       serverCloses = [], cleanupRan = False \<rparr>"
  by (simp add: env_defs step_def on_server_message_def prim_defs timer_defs)


lemma reachable_one_open:
  assumes "opens tr \<le> 1"
  shows "(opens tr = 0 \<and> pre_open (run init tr) (client_frames tr)) \<or>
         (opens tr = 1 \<and> post_open (run init tr) (client_frames tr))"
  using run_one_open [OF assms pre_open_init] by simp

lemma opened_state:
  "run init [(calm, UpstreamOpen)] =
     \<lparr> bufferedData = [], bufferTimeout = None, isUpstreamConnected = True,
       keepaliveTimer = Some 1, timeouts = {}, intervals = {1}, nextHandle = 2,
       upstreamSent = [], upstreamCloses = [], serverSent = [], serverCloses = [],
       cleanupRan = False \<rparr>"
  by (simp add: env_defs step_def on_upstream_open_def timer_defs)

section \<open>Claim about the order of relayed frames\<close>




section \<open>Claims about single handlers\<close>

text \<open>
  Claim C2 (overflow), as amended. A client frame that arrives while the relay is not
  forwarding (\<^verbatim>\<open>isUpstreamConnected\<close> false or the upstream not open) and finds
  \<open>MAX_BUFFER_SIZE\<close> or more frames queued makes the handler run \<open>cleanup\<close> and call
  \<^verbatim>\<open>server.close(1011, "buffer_overflow")\<close>; an exception of that call is swallowed. The
  frame and the queued frames are dropped: nothing is sent upstream and the queue is
  empty afterwards. The close code is 1011, not a policy-violation code.
\<close>

theorem overflow_aborts:
  "\<not> (isUpstreamConnected s \<and> upstreamReadyState ev = OPEN) \<and>
   length (bufferedData s) \<ge> MAX_BUFFER_SIZE \<longrightarrow>
     on_server_message ev d s =
       Inr ((cleanup s)\<lparr>serverCloses := serverCloses s @
              (if closeThrows ev then [] else [Some (1011, ''buffer_overflow'')])\<rparr>)
     \<and> upstreamSent (final (on_server_message ev d s)) = upstreamSent s
     \<and> bufferedData (final (on_server_message ev d s)) = []"
  by (auto simp: on_server_message_def prim_defs timer_defs split: option.splits)

text \<open>Ten frames are queued; the eleventh triggers the overflow close.\<close>

theorem overflow_aborts_witness:
  "length (bufferedData (run init (take 10 overflow_trace))) = 10
   \<and> \<not> isUpstreamConnected (run init (take 10 overflow_trace))
   \<and> on_server_message connecting (Binary [10]) (run init (take 10 overflow_trace)) =
       Inr \<lparr> bufferedData = [], bufferTimeout = None, isUpstreamConnected = False,
             keepaliveTimer = None, timeouts = {}, intervals = {}, nextHandle = 2,
             upstreamSent = [], upstreamCloses = [], serverSent = [],
             serverCloses = [Some (1011, ''buffer_overflow'')], cleanupRan = True \<rparr>"
  using overflow_aborts [of "run init (take 10 overflow_trace)" connecting "Binary [10]"]
  by (simp add: overflow_trace_def upt_rec env_defs step_def on_server_message_def
        prim_defs timer_defs)

text \<open>
  Against C2 as stated: after eleven frames the one close call on the client socket
  carries code 1011 (internal error), and no call carries 1008 (policy violation).
\<close>

theorem overflow_close_code_counterexample:
  "serverCloses (run init overflow_trace) = [Some (INTERNAL_ERROR, ''buffer_overflow'')]
   \<and> Some (POLICY_VIOLATION, ''buffer_overflow'') \<notin> set (serverCloses (run init overflow_trace))"
  by (simp add: overflow_state POLICY_VIOLATION_def INTERNAL_ERROR_def)

text \<open>
  Claim C3 (buffer deadline). The timeout callback, when the queue is non-empty and
  \<^verbatim>\<open>isUpstreamConnected\<close> is false, empties the queue and calls
  \<^verbatim>\<open>server.close(1011, "upstream_connection_timeout")\<close> (an exception of the call is
  swallowed); when the queue is empty or the flag is true it changes nothing. Firing a
  pending handle runs that callback, the handle being pending no longer.
\<close>

theorem buffer_deadline_fires:
  "(bufferedData s \<noteq> [] \<and> \<not> isUpstreamConnected s \<longrightarrow>
      buffer_timeout_callback ev s =
        Inr (s\<lparr>bufferedData := [],
               serverCloses := serverCloses s @
                 (if closeThrows ev then [] else [Some (1011, ''upstream_connection_timeout'')])\<rparr>))
   \<and> (bufferedData s = [] \<or> isUpstreamConnected s \<longrightarrow> buffer_timeout_callback ev s = Inr s)
   \<and> (h \<in> timeouts s \<longrightarrow>
        dispatch ev (BufferTimeoutFires h) s =
          buffer_timeout_callback ev (s\<lparr>timeouts := timeouts s - {h}\<rparr>))"
  by (auto simp: buffer_timeout_callback_def prim_defs)

theorem buffer_deadline_fires_witness:
  "bufferedData (run init [(connecting, ServerMessage (Text ''a''))]) = [Text ''a'']
   \<and> \<not> isUpstreamConnected (run init [(connecting, ServerMessage (Text ''a''))])
   \<and> 1 \<in> timeouts (run init [(connecting, ServerMessage (Text ''a''))])
   \<and> buffer_timeout_callback connecting (run init [(connecting, ServerMessage (Text ''a''))]) =
     Inr ((run init [(connecting, ServerMessage (Text ''a''))])
            \<lparr>bufferedData := [], serverCloses := [Some (1011, ''upstream_connection_timeout'')]\<rparr>)
   \<and> buffer_timeout_callback connecting init = Inr init
   \<and> final (dispatch connecting (BufferTimeoutFires 1)
              (run init [(connecting, ServerMessage (Text ''a''))])) =
       \<lparr> bufferedData = [], bufferTimeout = Some 1, isUpstreamConnected = False,
         keepaliveTimer = None, timeouts = {}, intervals = {}, nextHandle = 2,
         upstreamSent = [], upstreamCloses = [], serverSent = [],
         serverCloses = [Some (1011, ''upstream_connection_timeout'')], cleanupRan = False \<rparr>"
  using buffer_deadline_fires [of "run init [(connecting, ServerMessage (Text ''a''))]" connecting 1]
        buffer_deadline_fires [of init connecting 1]
  by (simp add: env_defs step_def handler_defs prim_defs timer_defs)

text \<open>
  Claim C4 (upstream ready). If no send of the flush throws, the \<^verbatim>\<open>open\<close> handler sets
  the flag, cancels the buffer timeout, sends the queue in order, empties it and starts
  the keepalive interval (also when the queue was empty). If the \<open>k\<close>-th send is the
  first to throw, the frames before it have been sent, the rest is dropped by \<open>cleanup\<close>,
  no keepalive is started and \<^verbatim>\<open>server.close(1011, "upstream_ws_error")\<close> is called. In
  every case the flag is set and \<^verbatim>\<open>bufferTimeout\<close> is null afterwards, and in every
  reachable state no timeout is pending afterwards.
\<close>

theorem upstream_open_flushes:
  "((\<forall>i<length (bufferedData s). \<not> sendThrows ev i) \<longrightarrow>
      on_upstream_open ev s =
        Inr (startKeepalive ((clearBufferTimeout s)
               \<lparr>isUpstreamConnected := True,
                upstreamSent := upstreamSent s @ map Relayed (bufferedData s),
                bufferedData := []\<rparr>)))
   \<and> (k < length (bufferedData s) \<and> sendThrows ev k \<and> (\<forall>i<k. \<not> sendThrows ev i) \<longrightarrow>
      on_upstream_open ev s =
        Inr ((cleanup (s\<lparr>isUpstreamConnected := True,
                         upstreamSent := upstreamSent s @ map Relayed (take k (bufferedData s))\<rparr>))
               \<lparr>serverCloses := serverCloses s @
                  (if closeThrows ev then [] else [Some (1011, ''upstream_ws_error'')])\<rparr>))
   \<and> timeouts (final (on_upstream_open ev (run init tr))) = {}
   \<and> bufferTimeout (final (on_upstream_open ev s)) = None
   \<and> isUpstreamConnected (final (on_upstream_open ev s))"
proof (intro conjI impI)
  assume "\<forall>i<length (bufferedData s). \<not> sendThrows ev i"
  then show "on_upstream_open ev s =
        Inr (startKeepalive ((clearBufferTimeout s)
               \<lparr>isUpstreamConnected := True,
                upstreamSent := upstreamSent s @ map Relayed (bufferedData s),
                bufferedData := []\<rparr>))"
    by (rule open_ok)
next
  assume "k < length (bufferedData s) \<and> sendThrows ev k \<and> (\<forall>i<k. \<not> sendThrows ev i)"
  then show "on_upstream_open ev s =
        Inr ((cleanup (s\<lparr>isUpstreamConnected := True,
                         upstreamSent := upstreamSent s @ map Relayed (take k (bufferedData s))\<rparr>))
               \<lparr>serverCloses := serverCloses s @
                  (if closeThrows ev then [] else [Some (1011, ''upstream_ws_error'')])\<rparr>)"
    using open_fail [of k s ev] by blast
next
  have "timeout_inv (final (on_upstream_open ev (run init tr)))"
    by (rule timeout_inv_open [OF timeout_inv_reachable])
  then show "timeouts (final (on_upstream_open ev (run init tr))) = {}"
    using open_queue_empty [of ev "run init tr"] by (simp add: timeout_inv_def)
next
  show "bufferTimeout (final (on_upstream_open ev s)) = None"
    using open_cases [of s ev] by (auto simp: timer_defs split: option.splits)
next
  show "isUpstreamConnected (final (on_upstream_open ev s))"
    using open_cases [of s ev] by (auto simp: timer_defs split: option.splits)
qed

theorem upstream_open_flushes_witness:
  "on_upstream_open calm
     (run init [(connecting, ServerMessage (Text ''a'')), (connecting, ServerMessage (Text ''b''))]) =
     Inr \<lparr> bufferedData = [], bufferTimeout = None, isUpstreamConnected = True,
           keepaliveTimer = Some 2, timeouts = {}, intervals = {2}, nextHandle = 3,
           upstreamSent = [Relayed (Text ''a''), Relayed (Text ''b'')], upstreamCloses = [],
           serverSent = [], serverCloses = [], cleanupRan = False \<rparr>
   \<and> on_upstream_open (calm\<lparr>sendThrows := (\<lambda>i. i = 1)\<rparr>)
     (run init [(connecting, ServerMessage (Text ''a'')), (connecting, ServerMessage (Text ''b''))]) =
     Inr \<lparr> bufferedData = [], bufferTimeout = None, isUpstreamConnected = True,
           keepaliveTimer = None, timeouts = {}, intervals = {}, nextHandle = 2,
           upstreamSent = [Relayed (Text ''a'')], upstreamCloses = [],
           serverSent = [], serverCloses = [Some (1011, ''upstream_ws_error'')],
           cleanupRan = True \<rparr>"
  using upstream_open_flushes [of
      "run init [(connecting, ServerMessage (Text ''a'')), (connecting, ServerMessage (Text ''b''))]"
      calm 1 "[]"]
    upstream_open_flushes [of
      "run init [(connecting, ServerMessage (Text ''a'')), (connecting, ServerMessage (Text ''b''))]"
      "calm\<lparr>sendThrows := (\<lambda>i. i = 1)\<rparr>" 1 "[]"]
  by (simp add: two_buffered calm_def timer_defs del: run.simps)

text \<open>
  Claim C5 (terminal events). Client close: \<open>cleanup\<close>, then \<^verbatim>\<open>upstream.close()\<close>. Client
  error: \<open>cleanup\<close>, then \<^verbatim>\<open>upstream.close(1011, "client_ws_error")\<close>. Upstream close: flag
  down, \<open>cleanup\<close>, then \<^verbatim>\<open>server.close()\<close>. Upstream error: flag down, \<open>cleanup\<close>, then
  \<^verbatim>\<open>server.close(1011, "upstream_ws_error")\<close>. Each handler returns (\<open>Inr\<close>) whether or
  not its close call throws: no exception leaves the handler. The teardown each of them
  runs is spelled out: afterwards the queue is empty, both timer variables are null, the
  handles they held are cancelled (in a reachable state no timeout is pending at all),
  nothing has been sent, the client events leave the flag as it was and close nothing on
  the client socket, the upstream events leave the flag false and close nothing on the
  upstream socket.
\<close>

theorem terminal_events:
  "on_server_close ev s =
     Inr ((cleanup s)\<lparr>upstreamCloses := upstreamCloses s @ (if closeThrows ev then [] else [None])\<rparr>)
   \<and> on_server_error ev s =
     Inr ((cleanup s)\<lparr>upstreamCloses := upstreamCloses s @
            (if closeThrows ev then [] else [Some (1011, ''client_ws_error'')])\<rparr>)
   \<and> on_upstream_close ev s =
     Inr ((cleanup (s\<lparr>isUpstreamConnected := False\<rparr>))
            \<lparr>serverCloses := serverCloses s @ (if closeThrows ev then [] else [None])\<rparr>)
   \<and> on_upstream_error ev s =
     Inr ((cleanup (s\<lparr>isUpstreamConnected := False\<rparr>))
            \<lparr>serverCloses := serverCloses s @
               (if closeThrows ev then [] else [Some (1011, ''upstream_ws_error'')])\<rparr>)
   \<and> (h \<in> {on_server_close, on_server_error, on_upstream_close, on_upstream_error} \<longrightarrow>
        bufferedData (final (h ev s)) = []
        \<and> bufferTimeout (final (h ev s)) = None
        \<and> keepaliveTimer (final (h ev s)) = None
        \<and> timeouts (final (h ev s)) = timeouts s - set_option (bufferTimeout s)
        \<and> intervals (final (h ev s)) = intervals s - set_option (keepaliveTimer s)
        \<and> upstreamSent (final (h ev s)) = upstreamSent s
        \<and> serverSent (final (h ev s)) = serverSent s)
   \<and> isUpstreamConnected (final (on_server_close ev s)) = isUpstreamConnected s
   \<and> isUpstreamConnected (final (on_server_error ev s)) = isUpstreamConnected s
   \<and> \<not> isUpstreamConnected (final (on_upstream_close ev s))
   \<and> \<not> isUpstreamConnected (final (on_upstream_error ev s))
   \<and> serverCloses (final (on_server_close ev s)) = serverCloses s
   \<and> serverCloses (final (on_server_error ev s)) = serverCloses s
   \<and> upstreamCloses (final (on_upstream_close ev s)) = upstreamCloses s
   \<and> upstreamCloses (final (on_upstream_error ev s)) = upstreamCloses s
   \<and> timeouts (final (on_server_close ev (run init tr))) = {}
   \<and> timeouts (final (on_server_error ev (run init tr))) = {}
   \<and> timeouts (final (on_upstream_close ev (run init tr))) = {}
   \<and> timeouts (final (on_upstream_error ev (run init tr))) = {}"
proof -
  have ce: "bufferedData (cleanup x) = []" "bufferTimeout (cleanup x) = None"
    "keepaliveTimer (cleanup x) = None"
    "timeouts (cleanup x) = timeouts x - set_option (bufferTimeout x)"
    "intervals (cleanup x) = intervals x - set_option (keepaliveTimer x)"
    "isUpstreamConnected (cleanup x) = isUpstreamConnected x"
    "upstreamSent (cleanup x) = upstreamSent x" "serverSent (cleanup x) = serverSent x"
    "upstreamCloses (cleanup x) = upstreamCloses x" "serverCloses (cleanup x) = serverCloses x"
    for x
    by (auto simp: timer_defs split: option.splits)
  have eqs: "on_server_close ev x =
     Inr ((cleanup x)\<lparr>upstreamCloses := upstreamCloses x @ (if closeThrows ev then [] else [None])\<rparr>)"
   "on_server_error ev x =
     Inr ((cleanup x)\<lparr>upstreamCloses := upstreamCloses x @
            (if closeThrows ev then [] else [Some (1011, ''client_ws_error'')])\<rparr>)"
   "on_upstream_close ev x =
     Inr ((cleanup (x\<lparr>isUpstreamConnected := False\<rparr>))
            \<lparr>serverCloses := serverCloses x @ (if closeThrows ev then [] else [None])\<rparr>)"
   "on_upstream_error ev x =
     Inr ((cleanup (x\<lparr>isUpstreamConnected := False\<rparr>))
            \<lparr>serverCloses := serverCloses x @
               (if closeThrows ev then [] else [Some (1011, ''upstream_ws_error'')])\<rparr>)"
    for x
    by (auto simp: handler_defs prim_defs timer_defs split: option.splits)
  have eff: "bufferedData (final (h ev s)) = []
        \<and> bufferTimeout (final (h ev s)) = None
        \<and> keepaliveTimer (final (h ev s)) = None
        \<and> timeouts (final (h ev s)) = timeouts s - set_option (bufferTimeout s)
        \<and> intervals (final (h ev s)) = intervals s - set_option (keepaliveTimer s)
        \<and> upstreamSent (final (h ev s)) = upstreamSent s
        \<and> serverSent (final (h ev s)) = serverSent s"
    if "h \<in> {on_server_close, on_server_error, on_upstream_close, on_upstream_error}"
    using that by (elim insertE emptyE) (simp_all add: eqs ce)
  have flags: "isUpstreamConnected (final (on_server_close ev s)) = isUpstreamConnected s"
    "isUpstreamConnected (final (on_server_error ev s)) = isUpstreamConnected s"
    "\<not> isUpstreamConnected (final (on_upstream_close ev s))"
    "\<not> isUpstreamConnected (final (on_upstream_error ev s))"
    "serverCloses (final (on_server_close ev s)) = serverCloses s"
    "serverCloses (final (on_server_error ev s)) = serverCloses s"
    "upstreamCloses (final (on_upstream_close ev s)) = upstreamCloses s"
    "upstreamCloses (final (on_upstream_error ev s)) = upstreamCloses s"
    by (simp_all add: eqs ce)
  have inv: "timeouts (run init tr) = {} \<or>
             timeouts (run init tr) = set_option (bufferTimeout (run init tr))"
    using timeout_inv_reachable [of tr] by (simp add: timeout_inv_def)
  have reach: "timeouts (final (on_server_close ev (run init tr))) = {}"
    "timeouts (final (on_server_error ev (run init tr))) = {}"
    "timeouts (final (on_upstream_close ev (run init tr))) = {}"
    "timeouts (final (on_upstream_error ev (run init tr))) = {}"
    using inv by (auto simp: eqs ce)
  from eqs [of s] eff flags reach show ?thesis by blast
qed

theorem terminal_events_witness:
  "on_server_close calm
     (run init [(connecting, ServerMessage (Text ''a'')), (connecting, ServerMessage (Text ''b''))]) =
     Inr \<lparr> bufferedData = [], bufferTimeout = None, isUpstreamConnected = False,
           keepaliveTimer = None, timeouts = {}, intervals = {}, nextHandle = 2,
           upstreamSent = [], upstreamCloses = [None], serverSent = [], serverCloses = [],
           cleanupRan = True \<rparr>
   \<and> on_server_error calm
     (run init [(connecting, ServerMessage (Text ''a'')), (connecting, ServerMessage (Text ''b''))]) =
     Inr \<lparr> bufferedData = [], bufferTimeout = None, isUpstreamConnected = False,
           keepaliveTimer = None, timeouts = {}, intervals = {}, nextHandle = 2,
           upstreamSent = [], upstreamCloses = [Some (1011, ''client_ws_error'')],
           serverSent = [], serverCloses = [], cleanupRan = True \<rparr>
   \<and> on_upstream_close calm (run init [(calm, UpstreamOpen)]) =
     Inr \<lparr> bufferedData = [], bufferTimeout = None, isUpstreamConnected = False,
           keepaliveTimer = None, timeouts = {}, intervals = {}, nextHandle = 2,
           upstreamSent = [], upstreamCloses = [], serverSent = [], serverCloses = [None],
           cleanupRan = True \<rparr>
   \<and> on_upstream_error calm (run init [(calm, UpstreamOpen)]) =
     Inr \<lparr> bufferedData = [], bufferTimeout = None, isUpstreamConnected = False,
           keepaliveTimer = None, timeouts = {}, intervals = {}, nextHandle = 2,
           upstreamSent = [], upstreamCloses = [], serverSent = [],
           serverCloses = [Some (1011, ''upstream_ws_error'')], cleanupRan = True \<rparr>
   \<and> on_server_close (calm\<lparr>closeThrows := True\<rparr>) (run init [(calm, UpstreamOpen)]) =
     Inr \<lparr> bufferedData = [], bufferTimeout = None, isUpstreamConnected = True,
           keepaliveTimer = None, timeouts = {}, intervals = {}, nextHandle = 2,
           upstreamSent = [], upstreamCloses = [], serverSent = [], serverCloses = [],
           cleanupRan = True \<rparr>
   \<and> on_server_close \<in> {on_server_close, on_server_error, on_upstream_close, on_upstream_error}
   \<and> intervals (run init [(calm, UpstreamOpen)]) = {1}
   \<and> intervals (final (on_server_close calm (run init [(calm, UpstreamOpen)]))) = {}"
proof -
  note a = terminal_events
    [of calm "run init [(connecting, ServerMessage (Text ''a'')), (connecting, ServerMessage (Text ''b''))]"
        on_server_close "[]"]
  note b = terminal_events [of calm "run init [(calm, UpstreamOpen)]" on_server_close "[]"]
  note c = terminal_events [of "calm\<lparr>closeThrows := True\<rparr>" "run init [(calm, UpstreamOpen)]"
        on_server_close "[]"]
  show ?thesis using a b c unfolding two_buffered opened_state
    by (simp add: calm_def timer_defs)
qed

text \<open>
  Claim C9 (upstream frames while the client is not open). A frame from the upstream
  that finds the client socket not open leaves the session exactly as it was: not
  queued, no cleanup, no close. With the client open the frame is sent; only a throwing
  send runs \<open>cleanup\<close> and closes the upstream with 1011 "client_ws_error". In the other
  direction a client frame that cannot be forwarded is appended to the queue while the
  queue holds fewer than \<open>MAX_BUFFER_SIZE\<close> frames.
\<close>

theorem upstream_frame_dropped:
  "(serverReadyState ev \<noteq> OPEN \<longrightarrow> on_upstream_message ev d s = Inr s)
   \<and> (serverReadyState ev = OPEN \<and> \<not> sendThrows ev 0 \<longrightarrow>
        on_upstream_message ev d s = Inr (s\<lparr>serverSent := serverSent s @ [d]\<rparr>))
   \<and> (serverReadyState ev = OPEN \<and> sendThrows ev 0 \<longrightarrow>
        on_upstream_message ev d s =
          Inr ((cleanup s)\<lparr>upstreamCloses := upstreamCloses s @
                 (if closeThrows ev then [] else [Some (1011, ''client_ws_error'')])\<rparr>))
   \<and> (\<not> (isUpstreamConnected s \<and> upstreamReadyState ev = OPEN) \<and>
        length (bufferedData s) < MAX_BUFFER_SIZE \<longrightarrow>
        bufferedData (final (on_server_message ev d s)) = bufferedData s @ [d])"
  by (auto simp: on_upstream_message_def on_server_message_def prim_defs timer_defs Let_def
        split: option.splits)

theorem upstream_frame_dropped_witness:
  "on_upstream_message (calm\<lparr>serverReadyState := CLOSED\<rparr>) (Text ''x'') init = Inr init
   \<and> serverSent (final (on_upstream_message calm (Text ''x'') init)) = [Text ''x'']
   \<and> upstreamCloses (final (on_upstream_message (calm\<lparr>sendThrows := (\<lambda>k. True)\<rparr>) (Text ''x'') init))
       = [Some (1011, ''client_ws_error'')]
   \<and> bufferedData (final (on_server_message connecting (Text ''y'') init)) = [Text ''y'']"
  using upstream_frame_dropped [of "calm\<lparr>serverReadyState := CLOSED\<rparr>" "Text ''x''" init]
        upstream_frame_dropped [of calm "Text ''x''" init]
        upstream_frame_dropped [of "calm\<lparr>sendThrows := (\<lambda>k. True)\<rparr>" "Text ''x''" init]
        upstream_frame_dropped [of connecting "Text ''y''" init]
  by (simp add: env_defs timer_defs)

section \<open>Claims about the timers across a session\<close>

text \<open>
  Claim C6 (keepalive timer), as amended. In every state reached by a trace with at most
  one upstream \<^verbatim>\<open>open\<close> event: if a keepalive interval is pending then
  \<^verbatim>\<open>isUpstreamConnected\<close> is true and the pending interval is the one \<^verbatim>\<open>keepaliveTimer\<close>
  holds, so \<open>cleanup\<close> leaves no interval pending. Before the \<^verbatim>\<open>open\<close> event no interval
  is pending and nothing at all, hence no keepalive frame, has been sent upstream. The
  converse is not claimed: a tick that finds the upstream not open, or whose send throws,
  runs \<open>clearKeepalive\<close> and nothing else, so in such a state it leaves no interval
  pending while the flag stays true and no cleanup has run; a tick on an open upstream
  whose send succeeds sends one keepalive frame and changes nothing else. (A second
  \<^verbatim>\<open>open\<close> event would start a second interval without clearing the first, line 110; a
  WebSocket opens once.)
\<close>

theorem keepalive_armed_implies_ready:
  "(opens tr \<le> 1 \<and> intervals (run init tr) \<noteq> {} \<longrightarrow>
      isUpstreamConnected (run init tr) \<and>
      intervals (run init tr) = set_option (keepaliveTimer (run init tr)))
   \<and> (opens tr = 0 \<longrightarrow> upstreamSent (run init tr) = [] \<and> intervals (run init tr) = {})
   \<and> (opens tr \<le> 1 \<longrightarrow>
        intervals (cleanup (run init tr)) = {} \<and> keepaliveTimer (cleanup (run init tr)) = None)
   \<and> (upstreamReadyState ev \<noteq> OPEN \<or> sendThrows ev 0 \<longrightarrow>
        keepalive_callback ev s = Inr (clearKeepalive s))
   \<and> (upstreamReadyState ev = OPEN \<and> \<not> sendThrows ev 0 \<longrightarrow>
        keepalive_callback ev s = Inr (s\<lparr>upstreamSent := upstreamSent s @ [Keepalive]\<rparr>))
   \<and> keepaliveTimer (clearKeepalive s) = None
   \<and> intervals (clearKeepalive s) = intervals s - set_option (keepaliveTimer s)
   \<and> isUpstreamConnected (clearKeepalive s) = isUpstreamConnected s
   \<and> cleanupRan (clearKeepalive s) = cleanupRan s
   \<and> (opens tr \<le> 1 \<and> h \<in> intervals (run init tr) \<and>
       (upstreamReadyState ev \<noteq> OPEN \<or> sendThrows ev 0) \<longrightarrow>
        intervals (step (run init tr) (ev, KeepaliveTick h)) = {}
        \<and> isUpstreamConnected (step (run init tr) (ev, KeepaliveTick h))
        \<and> cleanupRan (step (run init tr) (ev, KeepaliveTick h)) = cleanupRan (run init tr))"
proof -
  have reach: "isUpstreamConnected (run init tr) \<and>
      intervals (run init tr) = set_option (keepaliveTimer (run init tr))"
    if a: "opens tr \<le> 1 \<and> intervals (run init tr) \<noteq> {}"
  proof -
    from a have "opens tr \<le> 1" by simp
    from reachable_one_open [OF this] a show ?thesis
      by (auto simp: pre_open_def post_open_def)
  qed
  have before: "upstreamSent (run init tr) = [] \<and> intervals (run init tr) = {}"
    if "opens tr = 0"
    using run_pre_open [OF that pre_open_init] by (simp add: pre_open_def)
  have clean: "intervals (cleanup (run init tr)) = {} \<and> keepaliveTimer (cleanup (run init tr)) = None"
    if "opens tr \<le> 1"
    using reachable_one_open [OF that]
    by (auto simp: pre_open_def post_open_def timer_defs split: option.splits)
  have fail: "keepalive_callback ev s = Inr (clearKeepalive s)"
    if "upstreamReadyState ev \<noteq> OPEN \<or> sendThrows ev 0"
    using that by (auto simp: keepalive_callback_def prim_defs)
  have ok: "keepalive_callback ev s = Inr (s\<lparr>upstreamSent := upstreamSent s @ [Keepalive]\<rparr>)"
    if "upstreamReadyState ev = OPEN \<and> \<not> sendThrows ev 0"
    using that by (auto simp: keepalive_callback_def prim_defs)
  have clr: "keepaliveTimer (clearKeepalive s) = None"
    "intervals (clearKeepalive s) = intervals s - set_option (keepaliveTimer s)"
    "isUpstreamConnected (clearKeepalive s) = isUpstreamConnected s"
    "cleanupRan (clearKeepalive s) = cleanupRan s"
    by (auto simp: clearKeepalive_def split: option.splits)
  have tick: "intervals (step (run init tr) (ev, KeepaliveTick h)) = {}
        \<and> isUpstreamConnected (step (run init tr) (ev, KeepaliveTick h))
        \<and> cleanupRan (step (run init tr) (ev, KeepaliveTick h)) = cleanupRan (run init tr)"
    if a: "opens tr \<le> 1 \<and> h \<in> intervals (run init tr) \<and>
       (upstreamReadyState ev \<noteq> OPEN \<or> sendThrows ev 0)"
  proof -
    let ?s = "run init tr"
    from a have ne: "opens tr \<le> 1 \<and> intervals ?s \<noteq> {}" by auto
    from reach [OF ne] have r: "isUpstreamConnected ?s"
      "intervals ?s = set_option (keepaliveTimer ?s)" by simp_all
    have cb: "keepalive_callback ev ?s = Inr (clearKeepalive ?s)"
      using a by (auto simp: keepalive_callback_def prim_defs)
    have st: "step ?s (ev, KeepaliveTick h) = clearKeepalive ?s"
      using a cb by (simp add: step_def)
    show ?thesis unfolding st using r
      by (auto simp: clearKeepalive_def split: option.splits)
  qed
  from reach before clean fail ok clr tick show ?thesis by blast
qed

theorem keepalive_armed_implies_ready_witness:
  "opens [(calm, UpstreamOpen)] \<le> 1
   \<and> intervals (run init [(calm, UpstreamOpen)]) = {1}
   \<and> isUpstreamConnected (run init [(calm, UpstreamOpen)])
   \<and> keepaliveTimer (run init [(calm, UpstreamOpen)]) = Some 1
   \<and> intervals (cleanup (run init [(calm, UpstreamOpen)])) = {}
   \<and> opens overflow_trace = 0
   \<and> upstreamSent (run init overflow_trace) = []
   \<and> upstreamReadyState closing = CLOSING
   \<and> keepalive_callback closing (run init [(calm, UpstreamOpen)]) =
       Inr ((run init [(calm, UpstreamOpen)])\<lparr>intervals := {}, keepaliveTimer := None\<rparr>)
   \<and> keepalive_callback (calm\<lparr>sendThrows := (\<lambda>k. True)\<rparr>) (run init [(calm, UpstreamOpen)]) =
       Inr ((run init [(calm, UpstreamOpen)])\<lparr>intervals := {}, keepaliveTimer := None\<rparr>)
   \<and> keepalive_callback calm (run init [(calm, UpstreamOpen)]) =
       Inr ((run init [(calm, UpstreamOpen)])\<lparr>upstreamSent := [Keepalive]\<rparr>)
   \<and> intervals (step (run init [(calm, UpstreamOpen)]) (closing, KeepaliveTick 1)) = {}
   \<and> isUpstreamConnected (step (run init [(calm, UpstreamOpen)]) (closing, KeepaliveTick 1))
   \<and> \<not> cleanupRan (step (run init [(calm, UpstreamOpen)]) (closing, KeepaliveTick 1))"
proof -
  note a = keepalive_armed_implies_ready
    [of "[(calm, UpstreamOpen)]" closing "run init [(calm, UpstreamOpen)]" 1]
  note b = keepalive_armed_implies_ready
    [of overflow_trace "calm\<lparr>sendThrows := (\<lambda>k. True)\<rparr>" "run init [(calm, UpstreamOpen)]" 1]
  note c = keepalive_armed_implies_ready
    [of "[(calm, UpstreamOpen)]" calm "run init [(calm, UpstreamOpen)]" 1]
  have o: "opens [(calm, UpstreamOpen)] \<le> 1" "opens overflow_trace = 0"
    by (simp_all add: overflow_trace_def upt_rec)
  show ?thesis using a b c o unfolding opened_state overflow_state
    by (simp add: calm_def closing_def clearKeepalive_def)
qed

text \<open>
  Against C6 as stated. After the \<^verbatim>\<open>open\<close> event and one keepalive tick whose send throws,
  or one tick that finds the upstream closing, the flag is true and \<open>cleanup\<close> has never
  run, yet no interval is pending. And after an overflow has run \<open>cleanup\<close>, a later
  \<^verbatim>\<open>open\<close> event starts the interval and its tick sends a keepalive frame.
\<close>

theorem keepalive_iff_counterexample:
  "isUpstreamConnected (run init [(calm, UpstreamOpen), (calm\<lparr>sendThrows := (\<lambda>k. True)\<rparr>, KeepaliveTick 1)])
   \<and> \<not> cleanupRan (run init [(calm, UpstreamOpen), (calm\<lparr>sendThrows := (\<lambda>k. True)\<rparr>, KeepaliveTick 1)])
   \<and> intervals (run init [(calm, UpstreamOpen), (calm\<lparr>sendThrows := (\<lambda>k. True)\<rparr>, KeepaliveTick 1)]) = {}
   \<and> isUpstreamConnected (run init [(calm, UpstreamOpen), (closing, KeepaliveTick 1)])
   \<and> \<not> cleanupRan (run init [(calm, UpstreamOpen), (closing, KeepaliveTick 1)])
   \<and> intervals (run init [(calm, UpstreamOpen), (closing, KeepaliveTick 1)]) = {}
   \<and> cleanupRan (run init overflow_trace)
   \<and> upstreamSent (run init (overflow_trace @ [(calm, UpstreamOpen), (calm, KeepaliveTick 2)]))
       = [Keepalive]"
proof -
  have tick: "run init [(calm, UpstreamOpen), (calm\<lparr>sendThrows := (\<lambda>k. True)\<rparr>, KeepaliveTick 1)] =
     \<lparr> bufferedData = [], bufferTimeout = None, isUpstreamConnected = True,
       keepaliveTimer = None, timeouts = {}, intervals = {}, nextHandle = 2,
       upstreamSent = [], upstreamCloses = [], serverSent = [], serverCloses = [],
       cleanupRan = False \<rparr>"
    by (simp add: env_defs step_def on_upstream_open_def keepalive_callback_def prim_defs timer_defs)
  have shut: "run init [(calm, UpstreamOpen), (closing, KeepaliveTick 1)] =
     \<lparr> bufferedData = [], bufferTimeout = None, isUpstreamConnected = True,
       keepaliveTimer = None, timeouts = {}, intervals = {}, nextHandle = 2,
       upstreamSent = [], upstreamCloses = [], serverSent = [], serverCloses = [],
       cleanupRan = False \<rparr>"
    by (simp add: env_defs step_def on_upstream_open_def keepalive_callback_def prim_defs timer_defs)
  have after: "upstreamSent (run init (overflow_trace @ [(calm, UpstreamOpen), (calm, KeepaliveTick 2)]))
       = [Keepalive]"
    unfolding run_append overflow_state
    by (simp add: calm_def step_def on_upstream_open_def keepalive_callback_def prim_defs timer_defs)
  show ?thesis unfolding tick shut overflow_state using after by simp
qed

text \<open>
  Claim C7 (buffer timeout), as amended. In every reachable state: if a timeout is
  pending then the queue is non-empty and the pending timeout is the one
  \<^verbatim>\<open>bufferTimeout\<close> holds; and if the queue is non-empty while \<^verbatim>\<open>isUpstreamConnected\<close> is
  false then a timeout is pending. A pending timeout does not imply that the flag is
  false: line 178 also queues a frame when the flag is true and the upstream socket is
  not open.
\<close>

theorem buffer_timer_invariant:
  "(timeouts (run init tr) \<noteq> {} \<longrightarrow>
      bufferedData (run init tr) \<noteq> [] \<and>
      timeouts (run init tr) = set_option (bufferTimeout (run init tr)))
   \<and> (bufferedData (run init tr) \<noteq> [] \<and> \<not> isUpstreamConnected (run init tr) \<longrightarrow>
        timeouts (run init tr) \<noteq> {})"
  using timeout_inv_reachable [of tr] by (auto simp: timeout_inv_def)

theorem buffer_timer_invariant_witness:
  "timeouts (run init [(connecting, ServerMessage (Text ''a'')), (connecting, ServerMessage (Text ''b''))]) = {1}
   \<and> bufferedData (run init [(connecting, ServerMessage (Text ''a'')), (connecting, ServerMessage (Text ''b''))])
       = [Text ''a'', Text ''b'']
   \<and> bufferTimeout (run init [(connecting, ServerMessage (Text ''a'')), (connecting, ServerMessage (Text ''b''))])
       = Some 1
   \<and> \<not> isUpstreamConnected (run init [(connecting, ServerMessage (Text ''a'')), (connecting, ServerMessage (Text ''b''))])"
  using buffer_timer_invariant [of "[(connecting, ServerMessage (Text ''a'')), (connecting, ServerMessage (Text ''b''))]"]
  by (simp add: two_buffered del: run.simps)

text \<open>
  Against C7 as stated: after the \<^verbatim>\<open>open\<close> event, a client frame that finds the upstream
  socket closing is queued and arms the timeout while the flag is true.
\<close>

theorem buffer_timer_iff_counterexample:
  "timeouts (run init [(calm, UpstreamOpen), (closing, ServerMessage (Text ''a''))]) = {2}
   \<and> bufferedData (run init [(calm, UpstreamOpen), (closing, ServerMessage (Text ''a''))]) = [Text ''a'']
   \<and> isUpstreamConnected (run init [(calm, UpstreamOpen), (closing, ServerMessage (Text ''a''))])"
  by (simp add: env_defs step_def on_upstream_open_def on_server_message_def prim_defs timer_defs)

text \<open>
  Claim C8 (teardown), as amended. \<open>cleanup\<close> is idempotent: run on its own result it
  changes nothing. It empties the queue, nulls both timer variables, cancels the two
  handles they held and touches neither socket. The source has no \<^verbatim>\<open>terminated\<close> guard:
  a terminal handler that runs again repeats \<open>cleanup\<close> (without effect) and repeats its
  close call.
\<close>

theorem cleanup_idempotent:
  "cleanup (cleanup s) = cleanup s
   \<and> bufferedData (cleanup s) = [] \<and> bufferTimeout (cleanup s) = None
   \<and> keepaliveTimer (cleanup s) = None
   \<and> timeouts (cleanup s) = timeouts s - set_option (bufferTimeout s)
   \<and> intervals (cleanup s) = intervals s - set_option (keepaliveTimer s)
   \<and> upstreamSent (cleanup s) = upstreamSent s \<and> serverSent (cleanup s) = serverSent s
   \<and> upstreamCloses (cleanup s) = upstreamCloses s \<and> serverCloses (cleanup s) = serverCloses s
   \<and> final (on_server_close ev (final (on_server_close ev s))) =
       (final (on_server_close ev s))
         \<lparr>upstreamCloses := upstreamCloses (final (on_server_close ev s)) @
            (if closeThrows ev then [] else [None])\<rparr>
   \<and> final (on_upstream_close ev (final (on_upstream_close ev s))) =
       (final (on_upstream_close ev s))
         \<lparr>serverCloses := serverCloses (final (on_upstream_close ev s)) @
            (if closeThrows ev then [] else [None])\<rparr>"
  by (auto simp: on_server_close_def on_upstream_close_def prim_defs timer_defs split: option.splits)

theorem cleanup_idempotent_witness:
  "cleanup (cleanup (run init [(connecting, ServerMessage (Text ''a'')), (connecting, ServerMessage (Text ''b''))]))
     = \<lparr> bufferedData = [], bufferTimeout = None,
       isUpstreamConnected = False, keepaliveTimer = None, timeouts = {}, intervals = {},
       nextHandle = 2, upstreamSent = [], upstreamCloses = [], serverSent = [],
       serverCloses = [], cleanupRan = True \<rparr>
   \<and> upstreamCloses (final (on_server_close calm (final (on_server_close calm init)))) = [None, None]"
proof -
  note a = cleanup_idempotent
    [of "run init [(connecting, ServerMessage (Text ''a'')), (connecting, ServerMessage (Text ''b''))]" calm]
  have b: "upstreamCloses (final (on_server_close calm (final (on_server_close calm init)))) = [None, None]"
    using cleanup_idempotent [of init calm]
    by (simp add: timer_defs on_server_close_def prim_defs env_defs)
  show ?thesis using a b unfolding two_buffered by (simp add: timer_defs)
qed

text \<open>
  Against C8 as stated (teardown takes effect at most once). After an overflow has run
  \<open>cleanup\<close>, a further client frame is queued and arms a new timeout, so \<open>cleanup\<close> is
  no longer the identity on that state, and the client's close event clears queue and
  timeout a second time. A client error followed by the client's close calls
  \<^verbatim>\<open>upstream.close\<close> twice.
\<close>

theorem teardown_once_counterexample:
  "cleanupRan (run init overflow_trace)
   \<and> bufferedData (run init (overflow_trace @ [(connecting, ServerMessage (Text ''late''))])) = [Text ''late'']
   \<and> timeouts (run init (overflow_trace @ [(connecting, ServerMessage (Text ''late''))])) = {2}
   \<and> cleanup (run init (overflow_trace @ [(connecting, ServerMessage (Text ''late''))]))
       \<noteq> run init (overflow_trace @ [(connecting, ServerMessage (Text ''late''))])
   \<and> bufferedData (run init (overflow_trace @ [(connecting, ServerMessage (Text ''late'')), (calm, ServerClose)])) = []
   \<and> timeouts (run init (overflow_trace @ [(connecting, ServerMessage (Text ''late'')), (calm, ServerClose)])) = {}
   \<and> upstreamCloses (run init [(calm, ServerError), (calm, ServerClose)])
       = [Some (1011, ''client_ws_error''), None]"
proof -
  have late: "run init (overflow_trace @ [(connecting, ServerMessage (Text ''late''))]) =
     \<lparr> bufferedData = [Text ''late''], bufferTimeout = Some 2, isUpstreamConnected = False,
       keepaliveTimer = None, timeouts = {2}, intervals = {}, nextHandle = 3,
       upstreamSent = [], upstreamCloses = [], serverSent = [],
       serverCloses = [Some (1011, ''buffer_overflow'')], cleanupRan = True \<rparr>"
    unfolding run_append overflow_state
    by (simp add: connecting_def MAX_BUFFER_SIZE_def step_def on_server_message_def prim_defs timer_defs)
  have closed: "run init (overflow_trace @ [(connecting, ServerMessage (Text ''late'')), (calm, ServerClose)]) =
     \<lparr> bufferedData = [], bufferTimeout = None, isUpstreamConnected = False,
       keepaliveTimer = None, timeouts = {}, intervals = {}, nextHandle = 3,
       upstreamSent = [], upstreamCloses = [None], serverSent = [],
       serverCloses = [Some (1011, ''buffer_overflow'')], cleanupRan = True \<rparr>"
    unfolding run_append overflow_state
    by (simp add: connecting_def calm_def MAX_BUFFER_SIZE_def step_def on_server_message_def
          on_server_close_def prim_defs timer_defs)
  have twice: "upstreamCloses (run init [(calm, ServerError), (calm, ServerClose)])
       = [Some (1011, ''client_ws_error''), None]"
    by (simp add: env_defs step_def on_server_close_def on_server_error_def prim_defs timer_defs)
  show ?thesis
    unfolding late closed overflow_state using twice
    by (simp add: timer_defs)
qed

section \<open>Claim about the CORS headers\<close>





end
